theory Spec2Isabelle
  imports Main "HOL-Library.Word"
begin

section \<open>The digest library, the file system and the C runtime\<close>

text \<open>
  \<^verbatim>\<open>scripts/hash_calc.cpp\<close> is a binding over OpenSSL's EVP interface. The library,
  the file system and the stack are the environment of the program. A digest algorithm
  (\<^verbatim>\<open>const EVP_MD*\<close>) is given by the three operations the program calls on a
  context of it; \<^verbatim>\<open>char\<close> data (file bytes, the read buffer, the output buffer) are
  \<^typ>\<open>char\<close>, \<^verbatim>\<open>unsigned char\<close> digest bytes are \<^typ>\<open>8 word\<close>,
  \<^verbatim>\<open>unsigned int\<close> is \<^typ>\<open>32 word\<close> and \<^verbatim>\<open>size_t\<close> is \<^typ>\<open>64 word\<close>.
  Releasing the context and closing the file change nothing that the program observes
  afterwards and are left out.

  Each of \<^verbatim>\<open>EVP_DigestInit_ex\<close>, \<^verbatim>\<open>EVP_DigestUpdate\<close> and
  \<^verbatim>\<open>EVP_DigestFinal_ex\<close> can fail, and the program discards the three return values
  (lines 21, 24 and 28). What it can observe of a call is therefore its effect only.
  \<open>md_init\<close> is the state of the context after the initialisation and \<open>md_update\<close>
  the state after an update, whether the call succeeded or failed: a context whose
  initialisation failed is one more state. \<open>md_final\<close> is what the finalisation
  writes: \<open>Some d\<close> when it stores the bytes \<open>d\<close> and their number, \<open>None\<close> when it
  fails and stores nothing. \<open>md_size\<close> is the digest length of the algorithm
  (\<^verbatim>\<open>EVP_MD_size\<close>); the program does not read it.
\<close>

type_synonym byte = "8 word"

record 'ctx EVP_MD =
  md_size :: nat
  md_init :: 'ctx
  md_update :: "'ctx \<Rightarrow> char list \<Rightarrow> 'ctx"
  md_final :: "'ctx \<Rightarrow> byte list option"

text \<open>
  The environment of one call: the registry behind \<^verbatim>\<open>EVP_get_digestbyname\<close> as
  it is after \<^verbatim>\<open>OpenSSL_add_all_digests\<close>, whether
  \<^verbatim>\<open>EVP_MD_CTX_new\<close> finds memory, the contents of the files that can be opened for
  reading, and what the stack holds where the uninitialised locals are placed: the
  arrays \<^verbatim>\<open>buf\<close> and \<^verbatim>\<open>hash\<close> and the variable \<^verbatim>\<open>len\<close> of
  \<^verbatim>\<open>hash_file\<close> (lines 22, 26 and 27), and the array \<^verbatim>\<open>out\<close> of
  \<^verbatim>\<open>main\<close> (line 43). An uninitialised object is read as the value found there.
\<close>

record 'ctx env =
  registry :: "string \<Rightarrow> 'ctx EVP_MD option"
  ctx_alloc :: bool
  files :: "string \<Rightarrow> char list option"
  buf_junk :: "nat \<Rightarrow> char"
  hash_junk :: "nat \<Rightarrow> byte"
  len_junk :: "32 word"
  out_junk :: "nat \<Rightarrow> char"

text \<open>\<^verbatim>\<open>EVP_MAX_MD_SIZE\<close> of \<^verbatim>\<open>openssl/evp.h\<close>: 64, the length of SHA-512.\<close>

definition EVP_MAX_MD_SIZE :: nat where
  "EVP_MAX_MD_SIZE = 64"

definition EVP_get_digestbyname :: "'ctx env \<Rightarrow> string \<Rightarrow> 'ctx EVP_MD option" where
  "EVP_get_digestbyname e algo_name = registry e algo_name"

definition EVP_MD_CTX_new :: "'ctx env \<Rightarrow> bool" where
  "EVP_MD_CTX_new e = ctx_alloc e"

definition EVP_DigestInit_ex :: "'ctx EVP_MD \<Rightarrow> 'ctx" where
  "EVP_DigestInit_ex md = md_init md"

text \<open>\<^verbatim>\<open>EVP_DigestUpdate(ctx, d, cnt)\<close> hashes the first \<open>cnt\<close> bytes at \<open>d\<close>.\<close>

definition EVP_DigestUpdate :: "'ctx EVP_MD \<Rightarrow> 'ctx \<Rightarrow> char list \<Rightarrow> nat \<Rightarrow> 'ctx" where
  "EVP_DigestUpdate md ctx d cnt = md_update md ctx (take cnt d)"

text \<open>
  \<^verbatim>\<open>EVP_DigestFinal_ex(ctx, hash, &len)\<close>, given what \<open>hash\<close> and \<open>len\<close> hold
  before the call. On success the digest is stored at the front of \<open>hash\<close> and its
  length in \<open>len\<close>; a digest longer than the array would be written past its end:
  undefined behaviour, \<open>None\<close>. On failure both are left as they were.
\<close>

definition EVP_DigestFinal_ex ::
  "'ctx EVP_MD \<Rightarrow> 'ctx \<Rightarrow> byte list \<Rightarrow> 32 word \<Rightarrow> (byte list \<times> 32 word) option" where
  "EVP_DigestFinal_ex md ctx hash len =
     (case md_final md ctx of
        None \<Rightarrow> Some (hash, len)
      | Some d \<Rightarrow>
          if length d \<le> length hash
          then Some (d @ drop (length d) hash, of_nat (length d))
          else None)"

subsection \<open>\<^verbatim>\<open>std::ifstream\<close>\<close>

text \<open>
  An open binary input stream: the bytes not yet read, the fail bit (what the conversion
  of the stream to \<^verbatim>\<open>bool\<close> tests) and the count of the last unformatted read.
\<close>

record ifstream =
  rest :: "char list"
  failbit :: bool
  gcount :: nat

definition ifstream_open :: "'ctx env \<Rightarrow> string \<Rightarrow> ifstream option" where
  "ifstream_open e file_path =
     (case files e file_path of
        None \<Rightarrow> None
      | Some bs \<Rightarrow> Some \<lparr>rest = bs, failbit = False, gcount = 0\<rparr>)"

text \<open>
  \<^verbatim>\<open>file.read(buf, n)\<close>: on a failed stream nothing is extracted and the count is 0.
  Otherwise up to \<open>n\<close> bytes are copied to the front of \<open>buf\<close>; the fail bit is set when
  the end of the file comes before \<open>n\<close> bytes were extracted. A file is its sequence of
  bytes: a device error in the middle of a read is not part of the model.
\<close>

definition ifstream_read :: "ifstream \<Rightarrow> char list \<Rightarrow> nat \<Rightarrow> ifstream \<times> char list" where
  "ifstream_read f buf n =
     (if failbit f then (f\<lparr>gcount := 0\<rparr>, buf)
      else
        let chunk = take n (rest f)
        in (\<lparr>rest = drop n (rest f), failbit = (length (rest f) < n), gcount = length chunk\<rparr>,
            chunk @ drop (length chunk) buf))"

subsection \<open>Memory writes and \<^verbatim>\<open>sprintf\<close>\<close>

text \<open>
  A \<^verbatim>\<open>char*\<close> is modelled by the bytes of the object from the pointer on. A write
  that does not fit into the object is undefined behaviour: \<open>None\<close>.
\<close>

definition store :: "char list \<Rightarrow> nat \<Rightarrow> char list \<Rightarrow> char list option" where
  "store mem p cs =
     (if p + length cs \<le> length mem
      then Some (take p mem @ cs @ drop (p + length cs) mem)
      else None)"

definition NUL :: char where
  "NUL = CHR 0x00"

definition newline :: char where
  "newline = CHR 0x0A"

definition hexdigit :: "nat \<Rightarrow> char" where
  "hexdigit n = ''0123456789abcdef'' ! n"

text \<open>The conversion \<^verbatim>\<open>%02x\<close> of an \<^verbatim>\<open>unsigned char\<close>: two lowercase digits.\<close>

definition fmt_02x :: "byte \<Rightarrow> string" where
  "fmt_02x b = [hexdigit (unat b div 16), hexdigit (unat b mod 16)]"

text \<open>\<^verbatim>\<open>sprintf(out + p, "%02x", b)\<close> writes the two digits and a terminating NUL.\<close>

definition sprintf_02x :: "char list \<Rightarrow> nat \<Rightarrow> byte \<Rightarrow> char list option" where
  "sprintf_02x out p b = store out p (fmt_02x b @ [NUL])"

text \<open>The C string at the start of a buffer; reading past a buffer without NUL is undefined.\<close>

definition c_str :: "char list \<Rightarrow> string option" where
  "c_str mem = (if NUL \<in> set mem then Some (takeWhile (\<lambda>c. c \<noteq> NUL) mem) else None)"

section \<open>\<^verbatim>\<open>hash_file\<close>\<close>

text \<open>
  Lines 22 to 25: \<^verbatim>\<open>while (file.read(buf, sizeof(buf)) || file.gcount())\<close> with
  \<^verbatim>\<open>EVP_DigestUpdate(ctx, buf, file.gcount())\<close> as its body.
\<close>

definition sizeof_buf :: nat where
  "sizeof_buf = 4096"

function read_loop :: "'ctx EVP_MD \<Rightarrow> ifstream \<Rightarrow> char list \<Rightarrow> 'ctx \<Rightarrow> 'ctx" where
  "read_loop md file buf ctx =
     (case ifstream_read file buf sizeof_buf of
        (file', buf') \<Rightarrow>
          if \<not> failbit file' \<or> gcount file' \<noteq> 0
          then read_loop md file' buf' (EVP_DigestUpdate md ctx buf' (gcount file'))
          else ctx)"
  by pat_completeness auto
termination
  apply (relation "measure (\<lambda>(md, file, buf, ctx). length (rest file))")
   apply simp
  subgoal for md f buf ctx x f'
    apply (cases "failbit f")
     apply (auto simp: ifstream_read_def Let_def sizeof_buf_def)
    done
  done

text \<open>
  Lines 31 and 32: \<^verbatim>\<open>for (unsigned int i = 0; i < len; ++i)\<close> with
  \<^verbatim>\<open>std::sprintf(out + i * 2, "%02x", hash[i])\<close> as its body. The index and
  \<open>i * 2\<close> are computed in \<^verbatim>\<open>unsigned int\<close>. Reading \<open>hash[i]\<close> past the
  end of the array is undefined behaviour.
\<close>

function hex_loop :: "byte list \<Rightarrow> 32 word \<Rightarrow> 32 word \<Rightarrow> char list \<Rightarrow> char list option" where
  "hex_loop hash len i out =
     (if i < len then
        (if unat i < length hash then
           (case sprintf_02x out (unat (i * 2)) (hash ! unat i) of
              None \<Rightarrow> None
            | Some out' \<Rightarrow> hex_loop hash len (i + 1) out')
         else None)
      else Some out)"
  by pat_completeness auto
termination
  apply (relation "measure (\<lambda>(hash, len, i, out). unat len - unat i)")
   apply simp
  subgoal for hash len i out out'
  proof -
    assume "i < len"
    then have lt: "unat i < unat len"
      by (simp add: word_less_nat_alt)
    have "unat len < 2 ^ 32"
      using unsigned_less [of len, where 'a = nat] by simp
    with lt have "unat (i + 1) = Suc (unat i)"
      by (simp add: unat_word_ariths)
    with lt show ?thesis
      by simp
  qed
  done

text \<open>
  The function, lines 8 to 35. The result is the status and the contents of the
  caller's buffer; \<open>None\<close> is undefined behaviour (an access outside an array).
  \<open>hash\<close> and \<open>len\<close> are declared without initialiser and handed to
  \<^verbatim>\<open>EVP_DigestFinal_ex\<close>, whose return value is dropped: lines 30 to 33 read
  whatever the two hold after the call. \<^verbatim>\<open>len * 2 + 1\<close> is computed in
  \<^verbatim>\<open>unsigned int\<close> and converted to \<^verbatim>\<open>size_t\<close> for the comparison with
  \<open>out_len\<close>.
\<close>

definition hash_file ::
  "'ctx env \<Rightarrow> string \<Rightarrow> string \<Rightarrow> char list \<Rightarrow> 64 word \<Rightarrow> (int \<times> char list) option" where
  "hash_file e algo_name file_path out out_len =
     (case EVP_get_digestbyname e algo_name of
        None \<Rightarrow> Some (1, out)
      | Some md \<Rightarrow>
          if \<not> EVP_MD_CTX_new e then Some (1, out)
          else
            (case ifstream_open e file_path of
               None \<Rightarrow> Some (1, out)
             | Some file \<Rightarrow>
                 let ctx = EVP_DigestInit_ex md;
                     buf = map (buf_junk e) [0..<sizeof_buf];
                     ctx = read_loop md file buf ctx;
                     hash = map (hash_junk e) [0..<EVP_MAX_MD_SIZE];
                     len = len_junk e
                 in (case EVP_DigestFinal_ex md ctx hash len of
                       None \<Rightarrow> None
                     | Some (hash, len) \<Rightarrow>
                         if out_len < ucast (len * 2 + 1) then Some (1, out)
                         else
                           (case hex_loop hash len 0 out of
                              None \<Rightarrow> None
                            | Some out' \<Rightarrow>
                                (case store out' (unat (len * 2)) [NUL] of
                                   None \<Rightarrow> None
                                 | Some out'' \<Rightarrow> Some (0, out''))))))"

section \<open>\<^verbatim>\<open>main\<close>\<close>

text \<open>
  What a run of the command-line program leaves behind: the exit status and the bytes
  written to the two standard streams.
\<close>

record run =
  exit_status :: int
  stdout :: string
  stderr :: string

text \<open>
  Lines 38 to 49. \<open>argv\<close> holds the \<open>argc\<close> strings of the argument vector, the
  program name first. With an empty vector \<^verbatim>\<open>argv[0]\<close> is a null pointer, and
  inserting it into a stream is undefined. The local array is
  \<^verbatim>\<open>char out[EVP_MAX_MD_SIZE * 2 + 1]\<close>, passed with \<^verbatim>\<open>sizeof(out)\<close>;
  \<^verbatim>\<open>std::cout << out\<close> prints the C string in it.
\<close>

definition sizeof_out :: nat where
  "sizeof_out = EVP_MAX_MD_SIZE * 2 + 1"

definition main :: "'ctx env \<Rightarrow> string list \<Rightarrow> run option" where
  "main e argv =
     (if length argv \<noteq> 3 then
        (case argv of
           [] \<Rightarrow> None
         | argv0 # _ \<Rightarrow>
             Some \<lparr>exit_status = 1, stdout = [],
                   stderr = ''usage: '' @ argv0 @ '' <algo> <file>'' @ [newline]\<rparr>)
      else
        let out = map (out_junk e) [0..<sizeof_out]
        in (case hash_file e (argv ! 1) (argv ! 2) out (of_nat sizeof_out) of
              None \<Rightarrow> None
            | Some (status, out') \<Rightarrow>
                if status \<noteq> 0 then Some \<lparr>exit_status = 1, stdout = [], stderr = []\<rparr>
                else
                  (case c_str out' of
                     None \<Rightarrow> None
                   | Some s \<Rightarrow>
                       Some \<lparr>exit_status = 0, stdout = s @ [newline], stderr = []\<rparr>)))"

section \<open>Notions the properties are stated with\<close>

text \<open>
  The digest that \<^verbatim>\<open>hash_file\<close> computes for a file with contents \<open>bs\<close>, lines 21
  to 28: a fresh context, the read loop over the opened stream, the finalisation;
  \<open>None\<close> when the finalisation fails and there is no digest.
\<close>

definition file_digest :: "'ctx env \<Rightarrow> 'ctx EVP_MD \<Rightarrow> char list \<Rightarrow> byte list option" where
  "file_digest e md bs =
     md_final md
       (read_loop md \<lparr>rest = bs, failbit = False, gcount = 0\<rparr>
          (map (buf_junk e) [0..<sizeof_buf]) (EVP_DigestInit_ex md))"

text \<open>
  What \<open>hash\<close> and \<open>len\<close> hold after line 28, for a file with contents \<open>bs\<close>.
\<close>

definition final_state ::
  "'ctx env \<Rightarrow> 'ctx EVP_MD \<Rightarrow> char list \<Rightarrow> (byte list \<times> 32 word) option" where
  "final_state e md bs =
     EVP_DigestFinal_ex md
       (read_loop md \<lparr>rest = bs, failbit = False, gcount = 0\<rparr>
          (map (buf_junk e) [0..<sizeof_buf]) (EVP_DigestInit_ex md))
       (map (hash_junk e) [0..<EVP_MAX_MD_SIZE]) (len_junk e)"

text \<open>
  The specification's reading of the loop: the contents cut into chunks of a fixed size,
  in file order, the last one shorter when the length is no multiple of the size, and no
  empty chunk.
\<close>

function chunks :: "nat \<Rightarrow> 'a list \<Rightarrow> 'a list list" where
  "chunks n xs = (if n = 0 \<or> xs = [] then [] else take n xs # chunks n (drop n xs))"
  by pat_completeness auto
termination
  by (relation "measure (\<lambda>(n, xs). length xs)") auto

text \<open>
  The specification's one-shot digest: a fresh context is fed the whole byte sequence
  in a single update and finalised.
\<close>

definition digest_oneshot :: "'ctx EVP_MD \<Rightarrow> char list \<Rightarrow> byte list option" where
  "digest_oneshot md bs =
     md_final md (EVP_DigestUpdate md (EVP_DigestInit_ex md) bs (length bs))"

text \<open>
  What the library promises of \<^verbatim>\<open>EVP_DigestUpdate\<close>: the digest depends on the
  bytes fed so far, not on how they were split over the calls.
\<close>

definition streaming :: "'ctx EVP_MD \<Rightarrow> bool" where
  "streaming md \<longleftrightarrow>
     (\<forall>c. md_final md (md_update md c []) = md_final md c) \<and>
     (\<forall>c a b. md_final md (md_update md (md_update md c a) b) =
        md_final md (md_update md c (a @ b)))"

text \<open>The specification's encoding: two lowercase hex characters per byte, in order.\<close>

definition hex_encode :: "byte list \<Rightarrow> string" where
  "hex_encode ds = concat (map fmt_02x ds)"

definition lowercase_hex :: "char \<Rightarrow> bool" where
  "lowercase_hex c \<longleftrightarrow> c \<in> set ''0123456789abcdef''"

text \<open>The writes of the encoding loop for the bytes still to come, from offset \<open>p\<close> on.\<close>

fun hex_writes :: "byte list \<Rightarrow> nat \<Rightarrow> char list \<Rightarrow> char list option" where
  "hex_writes [] p out = Some out"
| "hex_writes (b # bs) p out =
     (case sprintf_02x out p b of
        None \<Rightarrow> None
      | Some out' \<Rightarrow> hex_writes bs (p + 2) out')"

text \<open>
  What the library promises of the digest sizes: a finalisation that succeeds stores
  \<^verbatim>\<open>EVP_MD_size\<close> bytes, and no algorithm has more than \<^verbatim>\<open>EVP_MAX_MD_SIZE\<close>.
\<close>

definition md_size_ok :: "'ctx EVP_MD \<Rightarrow> bool" where
  "md_size_ok md \<longleftrightarrow>
     md_size md \<le> EVP_MAX_MD_SIZE \<and>
     (\<forall>c d. md_final md c = Some d \<longrightarrow> length d = md_size md)"

text \<open>The loops are unfolded by hand, one iteration at a time.\<close>

declare read_loop.simps [simp del]
declare hex_loop.simps [simp del]
declare chunks.simps [simp del]

subsection \<open>Small instances to run the program on\<close>

text \<open>
  A two-byte checksum in the manner of Fletcher's: the context is the pair of running
  sums, the digest is the second sum followed by the first. Its calls never fail.
\<close>

definition toy16_step :: "byte \<times> byte \<Rightarrow> char \<Rightarrow> byte \<times> byte" where
  "toy16_step c x = (fst c + of_char x, snd c + (fst c + of_char x))"

definition toy16 :: "(byte \<times> byte) EVP_MD" where
  "toy16 =
     \<lparr>md_size = 2,
      md_init = (0, 0),
      md_update = (\<lambda>c bs. foldl toy16_step c bs),
      md_final = (\<lambda>c. Some [snd c, fst c])\<rparr>"

definition test_env :: "(byte \<times> byte) env" where
  "test_env =
     \<lparr>registry = (\<lambda>name. if name = ''toy16'' then Some toy16 else None),
      ctx_alloc = True,
      files = (\<lambda>path. if path = ''abc.txt'' then Some ''abc''
                       else if path = ''empty'' then Some [] else None),
      buf_junk = (\<lambda>_. CHR ''?''),
      hash_junk = (\<lambda>_. 0xAB),
      len_junk = 1000,
      out_junk = (\<lambda>_. CHR ''#'')\<rparr>"

text \<open>A second environment: the same registry, the same bytes under another path.\<close>

definition test_env2 :: "(byte \<times> byte) env" where
  "test_env2 =
     \<lparr>registry = (\<lambda>name. if name = ''toy16'' then Some toy16 else None),
      ctx_alloc = True,
      files = (\<lambda>path. if path = ''copy.txt'' then Some ''abc'' else None),
      buf_junk = (\<lambda>_. CHR ''!''),
      hash_junk = (\<lambda>_. 0),
      len_junk = 0,
      out_junk = (\<lambda>_. CHR ''.'')\<rparr>"

text \<open>
  An algorithm that the registry knows by name and the library cannot run, as
  \<^verbatim>\<open>md4\<close> is where only the default provider of OpenSSL 3 is loaded: the
  initialisation fails and leaves a context without a digest, which every update leaves
  as it is and whose finalisation fails. Its digests would have 16 bytes.
\<close>

definition legacy_md :: "unit EVP_MD" where
  "legacy_md =
     \<lparr>md_size = 16,
      md_init = (),
      md_update = (\<lambda>c bs. c),
      md_final = (\<lambda>c. None)\<rparr>"

text \<open>
  Two environments with that algorithm that differ in nothing but the value the stack
  holds where \<open>len\<close> is placed.
\<close>

definition legacy_env :: "unit env" where
  "legacy_env =
     \<lparr>registry = (\<lambda>name. if name = ''md4'' then Some legacy_md else None),
      ctx_alloc = True,
      files = (\<lambda>path. if path = ''abc.txt'' then Some ''abc''
                       else if path = ''empty'' then Some [] else None),
      buf_junk = (\<lambda>_. CHR ''?''),
      hash_junk = (\<lambda>_. 0xAB),
      len_junk = 0,
      out_junk = (\<lambda>_. CHR ''#'')\<rparr>"

definition legacy_env2 :: "unit env" where
  "legacy_env2 = legacy_env\<lparr>len_junk := 1000\<rparr>"

section \<open>The read loop\<close>

lemma read_loop_failed: "failbit f \<Longrightarrow> read_loop md f buf ctx = ctx"
  by (subst read_loop.simps) (simp add: ifstream_read_def)

lemma read_loop_chunks:
  "\<not> failbit f \<Longrightarrow>
   read_loop md f buf ctx = foldl (md_update md) ctx (chunks sizeof_buf (rest f))"
proof (induction "rest f" arbitrary: f buf ctx rule: length_induct)
  case 1
  show ?case
  proof (cases "rest f = []")
    case True
    then show ?thesis using 1(2)
      apply (subst read_loop.simps)
      apply (subst chunks.simps)
      apply (simp add: ifstream_read_def sizeof_buf_def)
      done
  next
    case False
    let ?f' = "\<lparr>rest = drop sizeof_buf (rest f), failbit = (length (rest f) < sizeof_buf),
                 gcount = length (take sizeof_buf (rest f))\<rparr>"
    let ?buf' = "take sizeof_buf (rest f) @ drop (length (take sizeof_buf (rest f))) buf"
    have rd: "ifstream_read f buf sizeof_buf = (?f', ?buf')"
      using 1(2) by (simp add: ifstream_read_def Let_def)
    have go: "\<not> failbit ?f' \<or> gcount ?f' \<noteq> 0"
      using False by (simp add: sizeof_buf_def)
    have upd: "EVP_DigestUpdate md ctx ?buf' (gcount ?f') = md_update md ctx (take sizeof_buf (rest f))"
      by (simp add: EVP_DigestUpdate_def min_def)
    have step: "read_loop md f buf ctx = read_loop md ?f' ?buf' (md_update md ctx (take sizeof_buf (rest f)))"
      apply (subst read_loop.simps)
      apply (simp only: rd prod.case go upd if_True)
      done
    have tail: "read_loop md ?f' ?buf' c = foldl (md_update md) c (chunks sizeof_buf (drop sizeof_buf (rest f)))" for c
    proof (cases "failbit ?f'")
      case True
      then have "drop sizeof_buf (rest f) = []" by simp
      with True show ?thesis
        by (simp add: read_loop_failed chunks.simps[of _ "[]"])
    next
      case False
      have "length (rest ?f') < length (rest f)"
        using \<open>rest f \<noteq> []\<close> by (simp add: sizeof_buf_def)
      with 1(1) False show ?thesis
        by (metis ifstream.select_convs(1))
    qed
    show ?thesis
      unfolding step tail
      using False by (subst (2) chunks.simps) (simp add: sizeof_buf_def)
  qed
qed

lemma concat_chunks: "0 < n \<Longrightarrow> concat (chunks n xs) = xs"
proof (induction n xs rule: chunks.induct)
  case (1 n xs)
  then show ?case
    by (subst chunks.simps) simp
qed

lemma chunks_sizes:
  "c \<in> set (chunks n xs) \<Longrightarrow> c \<noteq> [] \<and> length c \<le> n"
proof (induction n xs rule: chunks.induct)
  case (1 n xs)
  show ?case
  proof (cases "n = 0 \<or> xs = []")
    case True
    with "1.prems" show ?thesis
      by (simp add: chunks.simps [of n xs])
  next
    case False
    with "1.prems" have "c = take n xs \<or> c \<in> set (chunks n (drop n xs))"
      by (simp add: chunks.simps [of n xs])
    then show ?thesis
    proof
      assume "c = take n xs"
      with False show ?thesis by simp
    next
      assume "c \<in> set (chunks n (drop n xs))"
      with False "1.IH" show ?thesis by blast
    qed
  qed
qed

lemma final_foldl_chunks:
  assumes "streaming md"
  shows "md_final md (foldl (md_update md) c (chunks n xs)) = md_final md (md_update md c (concat (chunks n xs)))"
proof (induction n xs arbitrary: c rule: chunks.induct)
  case (1 n xs)
  show ?case
  proof (cases "n = 0 \<or> xs = []")
    case True
    then show ?thesis
      using assms by (subst (1 2) chunks.simps) (simp add: streaming_def)
  next
    case False
    have "md_final md (foldl (md_update md) c (chunks n xs)) =
          md_final md (foldl (md_update md) (md_update md c (take n xs)) (chunks n (drop n xs)))"
      using False by (subst chunks.simps) simp
    also have "\<dots> = md_final md (md_update md (md_update md c (take n xs)) (concat (chunks n (drop n xs))))"
      using False by (intro "1.IH") 
    also have "\<dots> = md_final md (md_update md c (take n xs @ concat (chunks n (drop n xs))))"
      using assms by (simp add: streaming_def)
    also have "\<dots> = md_final md (md_update md c (concat (chunks n xs)))"
      using False by (subst (2) chunks.simps) simp
    finally show ?thesis .
  qed
qed

lemma file_digest_chunks:
  "file_digest e md bs = md_final md (foldl (md_update md) (md_init md) (chunks sizeof_buf bs))"
  by (simp add: file_digest_def read_loop_chunks EVP_DigestInit_ex_def)

lemma file_digest_oneshot:
  "streaming md \<Longrightarrow> file_digest e md bs = digest_oneshot md bs"
  by (simp add: file_digest_chunks final_foldl_chunks concat_chunks sizeof_buf_def
      digest_oneshot_def EVP_DigestUpdate_def EVP_DigestInit_ex_def)

lemma streaming_toy16: "streaming toy16"
  by (simp add: streaming_def toy16_def)

lemma chunks_butlast:
  "c \<in> set (butlast (chunks n xs)) \<Longrightarrow> length c = n"
proof (induction n xs rule: chunks.induct)
  case (1 n xs)
  show ?case
  proof (cases "n = 0 \<or> xs = []")
    case True
    with "1.prems" show ?thesis
      by (simp add: chunks.simps [of n xs])
  next
    case False
    show ?thesis
    proof (cases "chunks n (drop n xs) = []")
      case True
      with False "1.prems" show ?thesis
        by (simp add: chunks.simps [of n xs])
    next
      case more: False
      then have "drop n xs \<noteq> []"
        by (auto simp: chunks.simps [of n "[]"])
      then have full: "length (take n xs) = n"
        by simp
      from False more "1.prems" have "c = take n xs \<or> c \<in> set (butlast (chunks n (drop n xs)))"
        by (simp add: chunks.simps [of n xs])
      with full False "1.IH" show ?thesis
        by blast
    qed
  qed
qed

lemma file_digest_env: "file_digest e md bs = file_digest e' md bs"
  by (simp add: file_digest_chunks)

lemma file_digest_empty: "file_digest e md [] = md_final md (EVP_DigestInit_ex md)"
  by (simp add: file_digest_chunks chunks.simps [of _ "[]"] EVP_DigestInit_ex_def)

section \<open>The encoding loop\<close>

lemma length_fmt_02x [simp]: "length (fmt_02x b) = 2"
  by (simp add: fmt_02x_def)

lemma length_hex_encode [simp]: "length (hex_encode ds) = 2 * length ds"
  by (induction ds) (simp_all add: hex_encode_def)

lemma hex_encode_Cons: "hex_encode (b # bs) = fmt_02x b @ hex_encode bs"
  by (simp add: hex_encode_def)

lemma hex_encode_Nil [simp]: "hex_encode [] = []"
  by (simp add: hex_encode_def)

lemma hexdigit_lowercase: "n < 16 \<Longrightarrow> lowercase_hex (hexdigit n)"
  unfolding lowercase_hex_def hexdigit_def by (rule nth_mem) simp

lemma fmt_02x_lowercase: "c \<in> set (fmt_02x b) \<Longrightarrow> lowercase_hex c"
proof -
  have "unat b < 256"
    using unsigned_less [of b, where 'a = nat] by simp
  then have "unat b div 16 < 16" "unat b mod 16 < 16"
    by auto
  then show "c \<in> set (fmt_02x b) \<Longrightarrow> lowercase_hex c"
    by (auto simp: fmt_02x_def hexdigit_lowercase)
qed

lemma hex_encode_lowercase: "c \<in> set (hex_encode ds) \<Longrightarrow> lowercase_hex c"
  by (auto simp: hex_encode_def fmt_02x_lowercase)

lemma lowercase_hex_not_NUL: "lowercase_hex c \<Longrightarrow> c \<noteq> NUL"
  by (auto simp: lowercase_hex_def NUL_def)

lemma length_store: "store mem p cs = Some mem' \<Longrightarrow> length mem' = length mem"
  by (auto simp: store_def split: if_splits)

lemma hex_writes_length: "hex_writes ds p out = Some out' \<Longrightarrow> length out' = length out"
  by (induction ds arbitrary: p out) (auto simp: sprintf_02x_def split: option.splits dest: length_store)

lemma hex_writes_ok:
  "ds \<noteq> [] \<Longrightarrow> p + 2 * length ds + 1 \<le> length out \<Longrightarrow>
   hex_writes ds p out = Some (take p out @ hex_encode ds @ [NUL] @ drop (p + 2 * length ds + 1) out)"
proof (induction ds arbitrary: p out)
  case Nil
  then show ?case by simp
next
  case (Cons b bs)
  let ?out1 = "take p out @ (fmt_02x b @ [NUL]) @ drop (p + 3) out"
  have s1: "sprintf_02x out p b = Some ?out1"
    using Cons.prems by (simp add: sprintf_02x_def store_def)
  show ?case
  proof (cases "bs = []")
    case True
    with s1 show ?thesis
      by (simp add: hex_encode_Cons numeral_3_eq_3)
  next
    case False
    have len1: "length ?out1 = length out"
      using Cons.prems by simp
    have "hex_writes bs (p + 2) ?out1 =
      Some (take (p + 2) ?out1 @ hex_encode bs @ [NUL] @ drop (p + 2 + 2 * length bs + 1) ?out1)"
      using False Cons.prems len1 by (intro Cons.IH) simp_all
    moreover have "take (p + 2) ?out1 = take p out @ fmt_02x b"
      using Cons.prems by simp
    moreover have "drop (p + 2 + 2 * length bs + 1) ?out1 = drop (p + 2 * length (b # bs) + 1) out"
    proof -
      have A: "length (take p out @ fmt_02x b @ [NUL]) = p + 3"
        using Cons.prems by simp
      have n: "p + 2 + 2 * length bs + 1 = (p + 3) + 2 * length bs"
        by simp
      have m: "2 * length bs + (p + 3) = p + 2 * length (b # bs) + 1"
        by simp
      have "drop (p + 2 + 2 * length bs + 1) ?out1 =
          drop ((p + 3) + 2 * length bs) ((take p out @ fmt_02x b @ [NUL]) @ drop (p + 3) out)"
        by (simp only: n append_assoc)
      also have "\<dots> = drop (2 * length bs) (drop (p + 3) out)"
        using A by (simp only: drop_append) simp
      also have "\<dots> = drop (p + 2 * length (b # bs) + 1) out"
        by (simp only: drop_drop m)
      finally show ?thesis .
    qed
    ultimately show ?thesis
      using s1 by (simp add: hex_encode_Cons)
  qed
qed

lemma hex_writes_bound:
  "hex_writes ds p out = Some out' \<Longrightarrow> ds \<noteq> [] \<Longrightarrow> p + 2 * length ds + 1 \<le> length out"
proof (induction ds arbitrary: p out)
  case Nil
  then show ?case by simp
next
  case (Cons b bs)
  from Cons.prems(1) obtain out1 where s1: "sprintf_02x out p b = Some out1"
    and rec: "hex_writes bs (p + 2) out1 = Some out'"
    by (auto split: option.splits)
  from s1 have b1: "p + 3 \<le> length out" and l1: "length out1 = length out"
    by (auto simp: sprintf_02x_def store_def split: if_splits)
  show ?case
  proof (cases "bs = []")
    case True
    with b1 show ?thesis by simp
  next
    case False
    with rec Cons.IH have "p + 2 + 2 * length bs + 1 \<le> length out1" by blast
    with l1 show ?thesis by simp
  qed
qed

lemma unat_twice:
  "unat len \<le> EVP_MAX_MD_SIZE \<Longrightarrow> unat ((len :: 32 word) * 2) = 2 * unat len"
  by (simp add: EVP_MAX_MD_SIZE_def unat_word_ariths)

lemma guard_nat:
  "unat len \<le> EVP_MAX_MD_SIZE \<Longrightarrow>
   (n < (ucast ((len :: 32 word) * 2 + 1) :: 64 word)) = (unat n < 2 * unat len + 1)"
  by (simp add: EVP_MAX_MD_SIZE_def word_less_nat_alt unat_word_ariths unsigned_ucast_eq
      take_bit_nat_eq_self mult.commute)

lemma unat_len:
  "n \<le> EVP_MAX_MD_SIZE \<Longrightarrow> unat (of_nat n :: 32 word) = n"
  by (simp add: EVP_MAX_MD_SIZE_def unat_of_nat)

lemma hex_loop_writes:
  "unat len \<le> EVP_MAX_MD_SIZE \<Longrightarrow> unat len \<le> length hash \<Longrightarrow> unat i \<le> unat len \<Longrightarrow>
   hex_loop hash len i out =
     hex_writes (drop (unat i) (take (unat len) hash)) (2 * unat i) out"
proof (induction "unat len - unat i" arbitrary: i out)
  case 0
  then have "unat i = unat len" by simp
  then have "\<not> i < len"
    by (simp add: word_less_nat_alt)
  with \<open>unat i = unat len\<close> show ?case
    by (simp add: hex_loop.simps [of hash len i])
next
  case (Suc k)
  then have lt: "unat i < unat len" by simp
  then have less: "i < len"
    by (simp add: word_less_nat_alt)
  from lt Suc.prems have inside: "unat i < length hash"
    by simp
  from lt Suc.prems have small: "unat i < 64"
    by (simp add: EVP_MAX_MD_SIZE_def)
  then have i2: "unat (i * 2) = 2 * unat i" and i1: "unat (i + 1) = Suc (unat i)"
    by (simp_all add: unat_word_ariths)
  have dr: "drop (unat i) (take (unat len) hash) =
      hash ! unat i # drop (Suc (unat i)) (take (unat len) hash)"
    using lt inside Suc.prems(2)
    by (simp add: Cons_nth_drop_Suc [symmetric])
  have IH: "hex_loop hash len (i + 1) out' =
      hex_writes (drop (unat (i + 1)) (take (unat len) hash)) (2 * unat (i + 1)) out'" for out'
    using Suc.hyps(2) Suc.prems lt i1 by (intro Suc.hyps(1)) simp_all
  show ?case
    by (subst hex_loop.simps) (simp add: less inside i2 dr IH i1 split: option.splits)
qed

section \<open>What \<^verbatim>\<open>hash_file\<close> returns\<close>

lemma hash_file_unknown:
  "registry e algo_name = None \<Longrightarrow> hash_file e algo_name file_path out out_len = Some (1, out)"
  by (simp add: hash_file_def EVP_get_digestbyname_def)

lemma hash_file_no_ctx:
  "registry e algo_name = Some md \<Longrightarrow> \<not> ctx_alloc e \<Longrightarrow>
   hash_file e algo_name file_path out out_len = Some (1, out)"
  by (simp add: hash_file_def EVP_get_digestbyname_def EVP_MD_CTX_new_def)

lemma hash_file_no_file:
  "registry e algo_name = Some md \<Longrightarrow> files e file_path = None \<Longrightarrow>
   hash_file e algo_name file_path out out_len = Some (1, out)"
  by (simp add: hash_file_def EVP_get_digestbyname_def ifstream_open_def)

lemma encode_writes_list:
  assumes "hex_loop hash len 0 out = hex_writes d 0 out" and "unat (len * 2) = 2 * length d"
  shows "(case hex_loop hash len 0 out of
            None \<Rightarrow> None
          | Some out' \<Rightarrow>
              (case store out' (unat (len * 2)) [NUL] of
                 None \<Rightarrow> None
               | Some out'' \<Rightarrow> Some (0 :: int, out''))) =
         (if 2 * length d + 1 \<le> length out
          then Some (0, hex_encode d @ [NUL] @ drop (2 * length d + 1) out)
          else None)"
proof (cases "d = []")
  case empty: True
  show ?thesis
    by (simp only: assms) (simp add: empty store_def)
next
  case False
  show ?thesis
  proof (cases "2 * length d + 1 \<le> length out")
    case True
    with False have "hex_writes d 0 out = Some (hex_encode d @ [NUL] @ drop (2 * length d + 1) out)"
      using hex_writes_ok [of d 0 out] by simp
    with True show ?thesis
      by (simp add: assms store_def)
  next
    case nofit: False
    with False have "hex_writes d 0 out = None"
      using hex_writes_bound [of d 0 out] by (cases "hex_writes d 0 out") auto
    with nofit show ?thesis
      by (simp add: assms(1))
  qed
qed

lemma encode_writes:
  assumes "unat len \<le> EVP_MAX_MD_SIZE" and "unat len \<le> length hash"
  shows "(case hex_loop hash len 0 out of
            None \<Rightarrow> None
          | Some out' \<Rightarrow>
              (case store out' (unat (len * 2)) [NUL] of
                 None \<Rightarrow> None
               | Some out'' \<Rightarrow> Some (0 :: int, out''))) =
         (if 2 * unat len + 1 \<le> length out
          then Some (0, hex_encode (take (unat len) hash) @ [NUL] @ drop (2 * unat len + 1) out)
          else None)"
proof -
  have len_d: "length (take (unat len) hash) = unat len"
    using assms(2) by simp
  have loop: "hex_loop hash len 0 out = hex_writes (take (unat len) hash) 0 out"
    using hex_loop_writes [OF assms, of 0 out] by simp
  have idx: "unat (len * 2) = 2 * length (take (unat len) hash)"
    using assms(1) by (simp only: len_d unat_twice)
  from encode_writes_list [OF loop idx] show ?thesis
    by (simp only: len_d)
qed

lemma hash_file_final:
  assumes "registry e algo_name = Some md" and "ctx_alloc e" and "files e file_path = Some bs"
  shows "hash_file e algo_name file_path out out_len =
     (case final_state e md bs of
        None \<Rightarrow> None
      | Some (hash, len) \<Rightarrow>
          if out_len < ucast (len * 2 + 1) then Some (1, out)
          else
            (case hex_loop hash len 0 out of
               None \<Rightarrow> None
             | Some out' \<Rightarrow>
                 (case store out' (unat (len * 2)) [NUL] of
                    None \<Rightarrow> None
                  | Some out'' \<Rightarrow> Some (0, out''))))"
  using assms
  by (simp add: hash_file_def EVP_get_digestbyname_def EVP_MD_CTX_new_def ifstream_open_def
      Let_def final_state_def)

lemma final_state_length:
  "final_state e md bs = Some (hash, len) \<Longrightarrow> length hash = EVP_MAX_MD_SIZE"
  by (auto simp: final_state_def EVP_DigestFinal_ex_def split: option.splits if_splits)

lemma final_state_digest:
  "file_digest e md bs = Some d \<Longrightarrow> length d \<le> EVP_MAX_MD_SIZE \<Longrightarrow>
   final_state e md bs =
     Some (d @ drop (length d) (map (hash_junk e) [0..<EVP_MAX_MD_SIZE]), of_nat (length d))"
  by (simp add: final_state_def file_digest_def EVP_DigestFinal_ex_def)

lemma final_state_none:
  "file_digest e md bs = None \<Longrightarrow>
   final_state e md bs = Some (map (hash_junk e) [0..<EVP_MAX_MD_SIZE], len_junk e)"
  by (simp add: final_state_def file_digest_def EVP_DigestFinal_ex_def)

lemma hash_file_guard:
  assumes "registry e algo_name = Some md" and "files e file_path = Some bs"
    and "final_state e md bs = Some (hash, len)" and "out_len < ucast (len * 2 + 1)"
  shows "hash_file e algo_name file_path out out_len = Some (1, out)"
proof (cases "ctx_alloc e")
  case True
  with assms show ?thesis
    by (simp add: hash_file_final)
next
  case False
  with assms(1) show ?thesis
    by (rule hash_file_no_ctx)
qed

lemma hash_file_run:
  assumes "registry e algo_name = Some md" and "ctx_alloc e" and "files e file_path = Some bs"
    and "final_state e md bs = Some (hash, len)" and "unat len \<le> EVP_MAX_MD_SIZE"
  shows "hash_file e algo_name file_path out out_len =
     (if unat out_len < 2 * unat len + 1 then Some (1, out)
      else if 2 * unat len + 1 \<le> length out
        then Some (0, hex_encode (take (unat len) hash) @ [NUL] @ drop (2 * unat len + 1) out)
        else None)"
proof -
  have "unat len \<le> length hash"
    using assms(5) final_state_length [OF assms(4)] by simp
  from encode_writes [OF assms(5) this] show ?thesis
    by (simp only: hash_file_final [OF assms(1-3)] assms(4) option.case prod.case
        guard_nat [OF assms(5)])
qed

lemma hash_file_digest:
  assumes "registry e algo_name = Some md" and "ctx_alloc e" and "files e file_path = Some bs"
    and "file_digest e md bs = Some d" and "length d \<le> EVP_MAX_MD_SIZE"
  shows "hash_file e algo_name file_path out out_len =
     (if unat out_len < 2 * length d + 1 then Some (1, out)
      else if 2 * length d + 1 \<le> length out
        then Some (0, hex_encode d @ [NUL] @ drop (2 * length d + 1) out)
        else None)"
  using hash_file_run [OF assms(1-3) final_state_digest [OF assms(4,5)], of out out_len] assms(5)
  by (simp add: unat_len)

lemma hash_file_no_digest:
  assumes "registry e algo_name = Some md" and "ctx_alloc e" and "files e file_path = Some bs"
    and "file_digest e md bs = None" and "unat (len_junk e) \<le> EVP_MAX_MD_SIZE"
  shows "hash_file e algo_name file_path out out_len =
     (if unat out_len < 2 * unat (len_junk e) + 1 then Some (1, out)
      else if 2 * unat (len_junk e) + 1 \<le> length out
        then Some (0, hex_encode (take (unat (len_junk e)) (map (hash_junk e) [0..<EVP_MAX_MD_SIZE])) @
               [NUL] @ drop (2 * unat (len_junk e) + 1) out)
        else None)"
  by (rule hash_file_run [OF assms(1-3) final_state_none [OF assms(4)] assms(5)])


lemma c_str_hex: "c_str (hex_encode d @ NUL # after) = Some (hex_encode d)"
proof -
  have "takeWhile (\<lambda>c. c \<noteq> NUL) (hex_encode d @ NUL # after) =
      hex_encode d @ takeWhile (\<lambda>c. c \<noteq> NUL) (NUL # after)"
    by (rule takeWhile_append2) (auto dest: hex_encode_lowercase lowercase_hex_not_NUL)
  then show ?thesis
    by (simp add: c_str_def)
qed

lemma md_size_ok_digest:
  "md_size_ok md \<Longrightarrow> file_digest e md bs = Some d \<Longrightarrow> length d \<le> EVP_MAX_MD_SIZE"
  by (auto simp: md_size_ok_def file_digest_def)

lemma hash_file_ok:
  assumes "registry e algo_name = Some md" and "ctx_alloc e" and "files e file_path = Some bs"
    and "file_digest e md bs = Some d" and "length d \<le> EVP_MAX_MD_SIZE"
    and "2 * length d + 1 \<le> unat out_len" and "2 * length d + 1 \<le> length out"
  shows "hash_file e algo_name file_path out out_len =
    Some (0, hex_encode d @ [NUL] @ drop (2 * length d + 1) out)"
  using assms(6,7) by (simp add: hash_file_digest [OF assms(1-5)])


text \<open>
  Where the finalisation succeeds, a call that returns 0 leaves the hex encoding of the
  digest in the buffer.
\<close>

lemma hash_file_hex_string:
  assumes "hash_file e algo_name file_path out out_len = Some (0, out')"
    and "registry e algo_name = Some md" and "files e file_path = Some bs"
    and "file_digest e md bs = Some d"
  shows "c_str out' = Some (hex_encode d) \<and> length (hex_encode d) = 2 * length d \<and>
    out' ! (2 * length d) = NUL"
proof -
  have alloc: "ctx_alloc e"
    using assms(1,2) by (cases "ctx_alloc e") (simp_all add: hash_file_no_ctx)
  have fits: "length d \<le> EVP_MAX_MD_SIZE"
  proof (rule ccontr)
    assume "\<not> length d \<le> EVP_MAX_MD_SIZE"
    with assms(4) have "final_state e md bs = None"
      by (simp add: final_state_def file_digest_def EVP_DigestFinal_ex_def)
    with assms(1) show False
      by (simp add: hash_file_final [OF assms(2) alloc assms(3)])
  qed
  from assms(1) have "out' = hex_encode d @ [NUL] @ drop (2 * length d + 1) out"
    by (simp add: hash_file_digest [OF assms(2) alloc assms(3,4) fits] split: if_splits)
  then show ?thesis
    by (simp add: c_str_hex nth_append)
qed



section \<open>Runs of the small instances\<close>




lemma digest_oneshot_toy16_abc: "digest_oneshot toy16 ''abc'' = Some [0x4a, 0x26]"
  by (simp add: digest_oneshot_def EVP_DigestUpdate_def EVP_DigestInit_ex_def toy16_def toy16_step_def)

lemma chunks_4097:
  "chunks sizeof_buf (replicate 4097 (CHR ''a'')) = [replicate 4096 (CHR ''a''), ''a'']"
  by (simp add: chunks.simps sizeof_buf_def)

lemma legacy_no_digest: "file_digest e legacy_md bs = None"
  by (simp add: file_digest_def legacy_md_def)

lemma legacy_final_state:
  "final_state e legacy_md bs = Some (map (hash_junk e) [0..<EVP_MAX_MD_SIZE], len_junk e)"
  by (rule final_state_none) (rule legacy_no_digest)

lemma legacy_run:
  assumes "files legacy_env file_path = Some bs" and "1 \<le> unat out_len" and "1 \<le> length out"
  shows "hash_file legacy_env ''md4'' file_path out out_len = Some (0, [NUL] @ drop 1 out)"
proof -
  have "hash_file legacy_env ''md4'' file_path out out_len =
     (if unat out_len < 2 * unat (len_junk legacy_env) + 1 then Some (1, out)
      else if 2 * unat (len_junk legacy_env) + 1 \<le> length out
        then Some (0, hex_encode (take (unat (len_junk legacy_env))
               (map (hash_junk legacy_env) [0..<EVP_MAX_MD_SIZE])) @
               [NUL] @ drop (2 * unat (len_junk legacy_env) + 1) out)
        else None)"
    by (rule hash_file_no_digest [where md = legacy_md and bs = bs])
      (simp_all add: assms(1) legacy_no_digest, simp_all add: legacy_env_def EVP_MAX_MD_SIZE_def)
  moreover have "unat (len_junk legacy_env) = 0"
    by (simp add: legacy_env_def)
  ultimately show ?thesis
    using assms(2,3) by simp
qed

lemma legacy_run2:
  assumes "files legacy_env file_path = Some bs" and "unat out_len < 2001"
  shows "hash_file legacy_env2 ''md4'' file_path out out_len = Some (1, out)"
proof (rule hash_file_guard [where md = legacy_md and bs = bs])
  show "registry legacy_env2 ''md4'' = Some legacy_md"
    by (simp add: legacy_env2_def legacy_env_def)
  show "files legacy_env2 file_path = Some bs"
    using assms(1) by (simp add: legacy_env2_def)
  show "final_state legacy_env2 legacy_md bs =
      Some (map (hash_junk legacy_env2) [0..<EVP_MAX_MD_SIZE], 1000)"
    by (simp add: legacy_final_state) (simp add: legacy_env2_def)
  show "out_len < ucast ((1000 :: 32 word) * 2 + 1)"
    using assms(2) by (simp add: word_less_nat_alt)
qed

section \<open>The properties\<close>


text \<open>
  C2. The read loop feeds the digest context exactly the chunks of the file contents:
  pieces of \<^verbatim>\<open>sizeof(buf)\<close> bytes in file order, none empty, all but the last
  full, which concatenated are the contents. For a library whose digest does not depend
  on how the bytes are split over the updates, the digest of the loop is the one-shot
  digest of the whole contents.
\<close>

theorem read_loop_equals_oneshot:
  assumes "streaming md"
  shows "file_digest e md bs =
      md_final md (foldl (md_update md) (EVP_DigestInit_ex md) (chunks sizeof_buf bs)) \<and>
    concat (chunks sizeof_buf bs) = bs \<and>
    list_all (\<lambda>c. c \<noteq> [] \<and> length c \<le> sizeof_buf) (chunks sizeof_buf bs) \<and>
    list_all (\<lambda>c. length c = sizeof_buf) (butlast (chunks sizeof_buf bs)) \<and>
    file_digest e md bs = digest_oneshot md bs"
proof (intro conjI)
  show "file_digest e md bs =
      md_final md (foldl (md_update md) (EVP_DigestInit_ex md) (chunks sizeof_buf bs))"
    by (simp add: file_digest_chunks EVP_DigestInit_ex_def)
  show "concat (chunks sizeof_buf bs) = bs"
    by (simp add: concat_chunks sizeof_buf_def)
  show "list_all (\<lambda>c. c \<noteq> [] \<and> length c \<le> sizeof_buf) (chunks sizeof_buf bs)"
    unfolding list_all_iff using chunks_sizes by blast
  show "list_all (\<lambda>c. length c = sizeof_buf) (butlast (chunks sizeof_buf bs))"
    unfolding list_all_iff using chunks_butlast by blast
  show "file_digest e md bs = digest_oneshot md bs"
    using assms by (rule file_digest_oneshot)
qed

theorem read_loop_equals_oneshot_witness:
  "file_digest test_env toy16 ''abc'' =
      md_final toy16 (foldl (md_update toy16) (EVP_DigestInit_ex toy16) [''abc'']) \<and>
   file_digest test_env toy16 ''abc'' = digest_oneshot toy16 ''abc'' \<and>
   digest_oneshot toy16 ''abc'' = Some [0x4a, 0x26] \<and>
   file_digest test_env toy16 (replicate 4097 (CHR ''a'')) =
      md_final toy16 (foldl (md_update toy16) (EVP_DigestInit_ex toy16)
        [replicate 4096 (CHR ''a''), ''a'']) \<and>
   file_digest test_env toy16 (replicate 4097 (CHR ''a'')) =
      digest_oneshot toy16 (replicate 4097 (CHR ''a''))"
proof -
  have c: "chunks sizeof_buf ''abc'' = [''abc'']"
    by (simp add: chunks.simps sizeof_buf_def)
  from read_loop_equals_oneshot [OF streaming_toy16, of test_env "''abc''"]
    read_loop_equals_oneshot [OF streaming_toy16, of test_env "replicate 4097 (CHR ''a'')"]
    digest_oneshot_toy16_abc
  show ?thesis
    unfolding c chunks_4097 by blast
qed


text \<open>
  C4. When the name does not resolve in the registry, or the file cannot be opened,
  \<^verbatim>\<open>hash_file\<close> returns 1 and the buffer is as it was.
\<close>

theorem hash_file_failure_no_output:
  assumes "registry e algo_name = None \<or> files e file_path = None"
  shows "hash_file e algo_name file_path out out_len = Some (1, out)"
proof (cases "registry e algo_name")
  case None
  then show ?thesis
    by (rule hash_file_unknown)
next
  case (Some md)
  with assms have "files e file_path = None"
    by simp
  with Some show ?thesis
    by (rule hash_file_no_file)
qed

theorem hash_file_failure_no_output_witness:
  "hash_file test_env ''notarealalgo'' ''abc.txt'' ''#######'' 7 = Some (1, ''#######'') \<and>
   hash_file test_env ''toy16'' ''missing.txt'' ''#######'' 7 = Some (1, ''#######'')"
proof
  show "hash_file test_env ''notarealalgo'' ''abc.txt'' ''#######'' 7 = Some (1, ''#######'')"
    by (rule hash_file_failure_no_output) (simp add: test_env_def)
  show "hash_file test_env ''toy16'' ''missing.txt'' ''#######'' 7 = Some (1, ''#######'')"
    by (rule hash_file_failure_no_output) (simp add: test_env_def)
qed


text \<open>
  C6. On an empty file the read loop feeds nothing (lemma \<open>file_digest_empty\<close>), but
  the call need not succeed with the digest of the empty sequence. With an algorithm
  that resolves and whose finalisation fails, and a buffer of 40 bytes, the call returns
  0 with the empty string, or 1, by the value found where \<open>len\<close> is placed; a digest
  of the empty sequence does not exist there.
\<close>

theorem hash_file_empty_file_stack_junk:
  "registry legacy_env ''md4'' = Some legacy_md \<and>
   files legacy_env ''empty'' = Some [] \<and>
   digest_oneshot legacy_md [] = None \<and>
   hash_file legacy_env ''md4'' ''empty'' (replicate 40 (CHR ''#'')) 40 =
     Some (0, [NUL] @ replicate 39 (CHR ''#'')) \<and>
   hash_file legacy_env2 ''md4'' ''empty'' (replicate 40 (CHR ''#'')) 40 =
     Some (1, replicate 40 (CHR ''#''))"
proof -
  have "hash_file legacy_env ''md4'' ''empty'' (replicate 40 (CHR ''#'')) 40 =
      Some (0, [NUL] @ drop 1 (replicate 40 (CHR ''#'')))"
    by (rule legacy_run [where bs = "[]"]) (simp_all add: legacy_env_def)
  moreover have "hash_file legacy_env2 ''md4'' ''empty'' (replicate 40 (CHR ''#'')) 40 =
      Some (1, replicate 40 (CHR ''#''))"
    by (rule legacy_run2 [where bs = "[]"]) (simp_all add: legacy_env_def)
  moreover have "digest_oneshot legacy_md [] = None"
    by (simp add: digest_oneshot_def legacy_md_def)
  ultimately show ?thesis
    by (simp add: legacy_env_def)
qed

text \<open>
  C7. With a program name and any number of arguments other than two, the run exits
  with status 1, prints the usage line to the error stream and nothing to the output
  stream. The outcome is the same in every environment: neither the registry nor the
  files are consulted.
\<close>

theorem main_usage:
  assumes "length args \<noteq> 2"
  shows "main e (prog # args) =
      Some \<lparr>exit_status = 1, stdout = [],
            stderr = ''usage: '' @ prog @ '' <algo> <file>'' @ [newline]\<rparr> \<and>
    main e' (prog # args) = main e (prog # args)"
  using assms by (simp add: main_def)

theorem main_usage_witness:
  "main test_env [''hash_calc''] =
     Some \<lparr>exit_status = 1, stdout = [],
           stderr = ''usage: hash_calc <algo> <file>'' @ [newline]\<rparr> \<and>
   main test_env [''hash_calc'', ''toy16''] =
     Some \<lparr>exit_status = 1, stdout = [],
           stderr = ''usage: hash_calc <algo> <file>'' @ [newline]\<rparr> \<and>
   main test_env [''hash_calc'', ''toy16'', ''abc.txt'', ''extra''] =
     Some \<lparr>exit_status = 1, stdout = [],
           stderr = ''usage: hash_calc <algo> <file>'' @ [newline]\<rparr> \<and>
   main test_env2 [''hash_calc'', ''toy16'', ''abc.txt'', ''extra''] =
     main test_env [''hash_calc'', ''toy16'', ''abc.txt'', ''extra'']"
  using main_usage [of "[]" test_env "''hash_calc''" test_env2]
    main_usage [of "[''toy16'']" test_env "''hash_calc''" test_env2]
    main_usage [of "[''toy16'', ''abc.txt'', ''extra'']" test_env "''hash_calc''" test_env2]
  by simp





end
